theory Spec2Isabelle
  imports Main "HOL-Library.Sublist"
begin

section \<open>Strings\<close>

text \<open>
  A Python \<open>str\<close> is modelled as a \<open>string\<close>, a list of characters; a character is
  read as the code point of the same number (0 to 255). The character classes below are
  those of CPython for these code points.
\<close>

definition isspace :: "char \<Rightarrow> bool" where
  \<comment> \<open>The characters \<open>str.strip()\<close> removes: \<open>str.isspace\<close>.\<close>
  "isspace c =
     (let n = (of_char c :: nat)
      in (9 \<le> n \<and> n \<le> 13) \<or> (28 \<le> n \<and> n \<le> 32) \<or> n = 133 \<or> n = 160)"

definition is_linebreak :: "char \<Rightarrow> bool" where
  \<comment> \<open>The line boundaries of \<open>str.splitlines()\<close>.\<close>
  "is_linebreak c =
     (let n = (of_char c :: nat)
      in (10 \<le> n \<and> n \<le> 13) \<or> (28 \<le> n \<and> n \<le> 30) \<or> n = 133)"

definition lower_char :: "char \<Rightarrow> char" where
  "lower_char c =
     (let n = (of_char c :: nat)
      in if (65 \<le> n \<and> n \<le> 90) \<or> (192 \<le> n \<and> n \<le> 222 \<and> n \<noteq> 215)
         then char_of (n + 32) else c)"

definition lower :: "string \<Rightarrow> string" where
  \<comment> \<open>\<open>str.lower()\<close>\<close>
  "lower s = map lower_char s"

definition lstrip :: "string \<Rightarrow> string" where
  \<comment> \<open>the leading whitespace removed\<close>
  "lstrip s = dropWhile isspace s"

definition rstrip :: "string \<Rightarrow> string" where
  \<comment> \<open>the trailing whitespace removed\<close>
  "rstrip s = rev (dropWhile isspace (rev s))"

definition strip :: "string \<Rightarrow> string" where
  \<comment> \<open>\<open>str.strip()\<close>: leading and trailing whitespace removed.\<close>
  "strip s = rstrip (lstrip s)"

fun splitlines_from :: "string \<Rightarrow> string \<Rightarrow> string list" where
  \<comment> \<open>\<open>str.splitlines()\<close>; the first argument is the line read so far. A carriage
      return followed by a line feed is one boundary, and a boundary at the very end
      opens no further line.\<close>
  "splitlines_from cur [] = (if cur = [] then [] else [cur])"
| "splitlines_from cur [c] = (if is_linebreak c then [cur] else [cur @ [c]])"
| "splitlines_from cur (c # d # cs) =
     (if c = CHR 0x0D \<and> d = CHR 0x0A then cur # splitlines_from [] cs
      else if is_linebreak c then cur # splitlines_from [] (d # cs)
      else splitlines_from (cur @ [c]) (d # cs))"

definition splitlines :: "string \<Rightarrow> string list" where
  "splitlines s = splitlines_from [] s"

definition startswith :: "string \<Rightarrow> string \<Rightarrow> bool" where
  \<comment> \<open>\<open>s.startswith(p)\<close>\<close>
  "startswith s p = prefix p s"

definition str_in :: "string \<Rightarrow> string \<Rightarrow> bool" where
  \<comment> \<open>\<open>sub in s\<close>: \<open>sub\<close> occurs in \<open>s\<close> as a contiguous substring.\<close>
  "str_in sub s = sublist sub s"

definition split_colon_1 :: "string \<Rightarrow> string \<times> string" where
  \<comment> \<open>\<open>s.split(":", 1)\<close> for an \<open>s\<close> that contains a colon (line 57 of the source has
      checked it): the text before the first colon, and the text after it.\<close>
  "split_colon_1 s =
     (takeWhile (\<lambda>c. c \<noteq> CHR '':'') s, tl (dropWhile (\<lambda>c. c \<noteq> CHR '':'') s))"

function py_replace :: "string \<Rightarrow> string \<Rightarrow> string \<Rightarrow> string" where
  \<comment> \<open>\<open>s.replace(old, new)\<close>: the occurrences of \<open>old\<close> are found from the left,
      each search starting behind the occurrence before; an empty \<open>old\<close> matches before
      every character and at the end.\<close>
  "py_replace [] old new = (if old = [] then new else [])"
| "py_replace (c # cs) old new =
     (if old = [] then new @ c # py_replace cs old new
      else if prefix old (c # cs) then new @ py_replace (drop (length old) (c # cs)) old new
      else c # py_replace cs old new)"
  by pat_completeness auto
termination
  by (relation "measure (\<lambda>(s, old, new). length s)") auto

section \<open>The key-value mapping\<close>

text \<open>
  A Python \<open>dict\<close> keeps its keys in insertion order: an association list with
  distinct keys. Assigning to a key that is present overwrites its value in place, and a
  new key goes to the end.
\<close>

type_synonym dict = "(string \<times> string) list"

fun dict_set :: "dict \<Rightarrow> string \<Rightarrow> string \<Rightarrow> dict" where
  \<comment> \<open>\<open>pairs[key] = value\<close>\<close>
  "dict_set [] key v = [(key, v)]"
| "dict_set ((k, w) # ps) key v =
     (if k = key then (k, v) # ps else (k, w) # dict_set ps key v)"

definition dict_get :: "dict \<Rightarrow> string \<Rightarrow> string option" where
  "dict_get d key = map_of d key"

section \<open>parse\_key\_values\<close>

fun parse_lines :: "dict \<Rightarrow> string list \<Rightarrow> dict" where
  \<comment> \<open>The loop of \<open>parse_key_values\<close> (lines 53 to 63), from the dictionary built so
      far.\<close>
  "parse_lines pairs [] = pairs"
| "parse_lines pairs (line # rest) =
     (let cleaned = strip line in
      if cleaned = [] \<or> startswith cleaned ''#'' then parse_lines pairs rest
      else if CHR '':'' \<notin> set cleaned then parse_lines pairs rest
      else
        (let (key0, value0) = split_colon_1 cleaned;
             key = strip key0;
             v = strip value0
         in if key \<noteq> [] then parse_lines (dict_set pairs key v) rest
            else parse_lines pairs rest))"

definition parse_key_values :: "string \<Rightarrow> dict" where
  "parse_key_values raw_text = parse_lines [] (splitlines raw_text)"

text \<open>
  The parser as the specification words it, for comparison with the loop above: a line is
  ignored when its trimmed form is empty, starts with \<open>#\<close>, has no colon, or has an
  empty trimmed key; any other line gives the pair of its trimmed key and trimmed value,
  split at the first colon.
\<close>

definition spec_key :: "string \<Rightarrow> string" where
  "spec_key line = strip (takeWhile (\<lambda>c. c \<noteq> CHR '':'') (strip line))"

definition spec_value :: "string \<Rightarrow> string" where
  "spec_value line = strip (tl (dropWhile (\<lambda>c. c \<noteq> CHR '':'') (strip line)))"

definition spec_ignored :: "string \<Rightarrow> bool" where
  "spec_ignored line =
     (strip line = [] \<or> startswith (strip line) ''#'' \<or> CHR '':'' \<notin> set (strip line)
      \<or> spec_key line = [])"

definition spec_valid_pairs :: "string \<Rightarrow> (string \<times> string) list" where
  "spec_valid_pairs raw_text =
     map (\<lambda>line. (spec_key line, spec_value line))
       (filter (\<lambda>line. \<not> spec_ignored line) (splitlines raw_text))"

section \<open>The document object model\<close>

text \<open>
  The documents of python-docx, as far as the program reads and writes them. A paragraph
  is a sequence of runs; its \<open>text\<close> is their concatenation, and assigning to
  \<open>text\<close> leaves one run holding the new string.

  The objects the library hands out are proxies of the paragraph elements of the
  package: two proxies of one element read and write the same text. An element is named
  by a number, and the document holds the state of every element. The lists the library
  yields can name an element more than once: \<open>row.cells\<close> has one entry for every grid
  column, so a cell merged over several columns stands there several times, and a header
  or footer that a section inherits is that of the section before.
\<close>

type_synonym pid = nat

record docx_paragraph =
  runs :: "string list"

definition paragraph_text :: "docx_paragraph \<Rightarrow> string" where
  \<comment> \<open>\<open>paragraph.text\<close>, read\<close>
  "paragraph_text p = concat (runs p)"

definition set_paragraph_text :: "string \<Rightarrow> docx_paragraph \<Rightarrow> docx_paragraph" where
  \<comment> \<open>\<open>paragraph.text = s\<close>\<close>
  "set_paragraph_text s p = p\<lparr>runs := [s]\<rparr>"

fun join :: "string \<Rightarrow> string list \<Rightarrow> string" where
  \<comment> \<open>\<open>sep.join(xs)\<close>\<close>
  "join sep [] = []"
| "join sep [x] = x"
| "join sep (x # y # ys) = x @ sep @ join sep (y # ys)"

type_synonym store = "pid \<Rightarrow> docx_paragraph"

record cell =
  cell_paragraphs :: "pid list"

definition cell_text :: "store \<Rightarrow> cell \<Rightarrow> string" where
  \<comment> \<open>\<open>cell.text\<close>: the texts of the cell's paragraphs, one per line.\<close>
  "cell_text st c = join [CHR 0x0A] (map (\<lambda>p. paragraph_text (st p)) (cell_paragraphs c))"

record row =
  cells :: "cell list"

record table =
  rows :: "row list"

record hdrftr =
  hf_paragraphs :: "pid list"

record doc_section =
  header :: "hdrftr option"
  footer :: "hdrftr option"

record document =
  content :: store
  paragraphs :: "pid list"
  sections :: "doc_section list"
  tables :: "table list"

definition store_of :: "docx_paragraph list \<Rightarrow> store" where
  \<comment> \<open>The store whose elements 0, 1, ... are the given paragraphs; every other element
      is an empty paragraph.\<close>
  "store_of ps p = (if p < length ps then ps ! p else \<lparr>runs = []\<rparr>)"

text \<open>
  An uploaded file, by what the libraries read from it: a DOCX package holding a
  document, a PDF holding the text each page yields (\<open>None\<close> for a page that yields
  nothing), or bytes that neither library can read. Saving a document gives the package
  that holds it.
\<close>

datatype buffer = Docx document | Pdf "string option list" | Malformed

datatype error = ImportError string | ValueError string | ReadError

record env =
  Document_installed :: bool
  PyPDF2_installed :: bool

section \<open>extract\_text\<close>

definition append_row_cells :: "store \<Rightarrow> string list \<Rightarrow> row \<Rightarrow> string list" where
  \<comment> \<open>lines 31 and 32\<close>
  "append_row_cells st acc r = foldl (\<lambda>a c. a @ [cell_text st c]) acc (cells r)"

definition append_table_cells :: "store \<Rightarrow> string list \<Rightarrow> table \<Rightarrow> string list" where
  \<comment> \<open>lines 30 to 32\<close>
  "append_table_cells st acc t = foldl (append_row_cells st) acc (rows t)"

definition extract_docx :: "document \<Rightarrow> string" where
  \<comment> \<open>lines 26 to 34\<close>
  "extract_docx doc =
     (let ps0 = map (\<lambda>p. paragraph_text (content doc p)) (paragraphs doc);
          ps = foldl (append_table_cells (content doc)) ps0 (tables doc)
      in join [CHR 0x0A] (filter (\<lambda>s. s \<noteq> []) ps))"

definition extract_pdf :: "string option list \<Rightarrow> string" where
  \<comment> \<open>lines 41 to 45\<close>
  "extract_pdf pages =
     join [CHR 0x0A] (map (\<lambda>t. case t of None \<Rightarrow> [] | Some s \<Rightarrow> s) pages)"

definition extract_text :: "env \<Rightarrow> buffer \<Rightarrow> string \<Rightarrow> error + string" where
  "extract_text e file_buffer extension0 =
     (let extension = lower extension0 in
      if extension = ''docx'' then
        (if \<not> Document_installed e then Inl (ImportError ''python-docx nao esta instalado.'')
         else case file_buffer of
                Docx doc \<Rightarrow> Inr (extract_docx doc)
              | _ \<Rightarrow> Inl ReadError)
      else if extension = ''pdf'' then
        (if \<not> PyPDF2_installed e then Inl (ImportError ''PyPDF2 nao esta instalado.'')
         else case file_buffer of
                Pdf pages \<Rightarrow> Inr (extract_pdf pages)
              | _ \<Rightarrow> Inl ReadError)
      else Inl (ValueError ''Tipo de arquivo nao suportado.''))"

section \<open>fill\_template\_with\_values\<close>

definition placeholder :: "string \<Rightarrow> string" where
  \<comment> \<open>line 73: two braces, the key, two braces\<close>
  "placeholder key = ''{{'' @ key @ ''}}''"

fun apply_values :: "string \<Rightarrow> dict \<Rightarrow> string" where
  \<comment> \<open>The loop over \<open>values.items()\<close> (lines 72 to 75), from the text so far.\<close>
  "apply_values updated [] = updated"
| "apply_values updated ((key, v) # rest) =
     (if str_in (placeholder key) updated
      then apply_values (py_replace updated (placeholder key) v) rest
      else apply_values updated rest)"

definition replace_in_paragraph :: "dict \<Rightarrow> docx_paragraph \<Rightarrow> docx_paragraph" where
  \<comment> \<open>The body of the loop over the paragraphs (lines 70 to 77), on the state of the
      paragraph handed over.\<close>
  "replace_in_paragraph vals p =
     (let original = paragraph_text p;
          updated = apply_values original vals
      in if updated \<noteq> original then set_paragraph_text updated p else p)"

fun replace_in_paragraphs :: "pid list \<Rightarrow> dict \<Rightarrow> store \<Rightarrow> store" where
  \<comment> \<open>Lines 69 to 77: the paragraphs are taken in the order handed over; each is read
      as it is at that moment and written in place.\<close>
  "replace_in_paragraphs [] vals st = st"
| "replace_in_paragraphs (p # ps) vals st =
     replace_in_paragraphs ps vals (st(p := replace_in_paragraph vals (st p)))"

definition fill_hdrftr :: "dict \<Rightarrow> hdrftr option \<Rightarrow> store \<Rightarrow> store" where
  \<comment> \<open>lines 91 and 92 (93 and 94): a header that is not there is passed over.\<close>
  "fill_hdrftr vals h st =
     (case h of
        None \<Rightarrow> st
      | Some hf \<Rightarrow> replace_in_paragraphs (hf_paragraphs hf) vals st)"

definition fill_section :: "dict \<Rightarrow> store \<Rightarrow> doc_section \<Rightarrow> store" where
  \<comment> \<open>lines 91 to 94: the header, then the footer\<close>
  "fill_section vals st s = fill_hdrftr vals (footer s) (fill_hdrftr vals (header s) st)"

definition fill_cell :: "dict \<Rightarrow> store \<Rightarrow> cell \<Rightarrow> store" where
  \<comment> \<open>line 99\<close>
  "fill_cell vals st c = replace_in_paragraphs (cell_paragraphs c) vals st"

definition fill_row :: "dict \<Rightarrow> store \<Rightarrow> row \<Rightarrow> store" where
  \<comment> \<open>lines 98 and 99\<close>
  "fill_row vals st r = foldl (fill_cell vals) st (cells r)"

definition fill_table :: "dict \<Rightarrow> store \<Rightarrow> table \<Rightarrow> store" where
  \<comment> \<open>lines 97 to 99\<close>
  "fill_table vals st t = foldl (fill_row vals) st (rows t)"

definition fill_document :: "document \<Rightarrow> dict \<Rightarrow> document" where
  \<comment> \<open>lines 88 to 99: the body, then the sections, then the tables, each on the state
      the steps before have left\<close>
  "fill_document doc vals =
     (let st1 = replace_in_paragraphs (paragraphs doc) vals (content doc);
          st2 = foldl (fill_section vals) st1 (sections doc);
          st3 = foldl (fill_table vals) st2 (tables doc)
      in doc\<lparr>content := st3\<rparr>)"

definition fill_template_with_values :: "env \<Rightarrow> buffer \<Rightarrow> dict \<Rightarrow> error + buffer" where
  "fill_template_with_values e template_bytes vals =
     (if \<not> Document_installed e then Inl (ImportError ''python-docx nao esta instalado.'')
      else case template_bytes of
             Docx doc \<Rightarrow> Inr (Docx (fill_document doc vals))
           | _ \<Rightarrow> Inl ReadError)"

text \<open>
  The paragraphs the filler is handed, in the order of its visits: the body paragraphs,
  then for each section those of its header and of its footer, then those of every cell
  of every table, row by row. A paragraph stands in this list once for every visit.
\<close>

definition hdrftr_paragraphs :: "hdrftr option \<Rightarrow> pid list" where
  "hdrftr_paragraphs h = (case h of None \<Rightarrow> [] | Some hf \<Rightarrow> hf_paragraphs hf)"

definition section_paragraphs :: "doc_section \<Rightarrow> pid list" where
  "section_paragraphs s = hdrftr_paragraphs (header s) @ hdrftr_paragraphs (footer s)"

definition table_paragraphs :: "table \<Rightarrow> pid list" where
  "table_paragraphs t = concat (map (\<lambda>r. concat (map cell_paragraphs (cells r))) (rows t))"

definition visit_order :: "document \<Rightarrow> pid list" where
  "visit_order doc =
     paragraphs doc @ concat (map section_paragraphs (sections doc))
       @ concat (map table_paragraphs (tables doc))"

definition reachable_paragraphs :: "document \<Rightarrow> docx_paragraph list" where
  \<comment> \<open>the reachable paragraphs as they are in the document\<close>
  "reachable_paragraphs doc = map (content doc) (visit_order doc)"

definition visits :: "document \<Rightarrow> pid \<Rightarrow> nat" where
  \<comment> \<open>how often the filler is handed a paragraph\<close>
  "visits doc p = count_list (visit_order doc) p"

text \<open>
  The substitution as the specification words it, for comparison with
  \<open>apply_values\<close>: for every key of the mapping, in its order, all occurrences of the
  key's placeholder are replaced by the key's value.
\<close>

definition spec_fill_text :: "dict \<Rightarrow> string \<Rightarrow> string" where
  "spec_fill_text vals t = foldl (\<lambda>u (key, v). py_replace u (placeholder key) v) t vals"

text \<open>
  Template texts in which braces stand only around placeholder keys: a sequence of
  pieces, each a literal character that is no brace or a placeholder whose key holds no
  brace. On such a text the substitution can be read piece by piece.
\<close>

definition is_brace :: "char \<Rightarrow> bool" where
  "is_brace c = (c = CHR ''{'' \<or> c = CHR ''}'')"

definition brace_free :: "string \<Rightarrow> bool" where
  "brace_free s = list_all (\<lambda>c. \<not> is_brace c) s"

datatype piece = Lit char | Slot string

fun render :: "piece list \<Rightarrow> string" where
  "render [] = []"
| "render (Lit c # ps) = c # render ps"
| "render (Slot key # ps) = placeholder key @ render ps"

fun well_formed :: "piece list \<Rightarrow> bool" where
  "well_formed [] = True"
| "well_formed (Lit c # ps) = (\<not> is_brace c \<and> well_formed ps)"
| "well_formed (Slot key # ps) = (brace_free key \<and> well_formed ps)"

fun fill_piece :: "dict \<Rightarrow> piece \<Rightarrow> piece list" where
  "fill_piece vals (Lit c) = [Lit c]"
| "fill_piece vals (Slot key) =
     (case map_of vals key of None \<Rightarrow> [Slot key] | Some v \<Rightarrow> map Lit v)"

definition fill_pieces :: "dict \<Rightarrow> piece list \<Rightarrow> piece list" where
  "fill_pieces vals ps = concat (map (fill_piece vals) ps)"

section \<open>Properties of extract\_text\<close>

lemma foldl_snoc_map: "foldl (\<lambda>a c. a @ [f c]) acc xs = acc @ map f xs"
  by (induction xs arbitrary: acc) simp_all

lemma append_row_cells_eq:
  "append_row_cells st acc r = acc @ map (cell_text st) (cells r)"
  by (simp add: append_row_cells_def foldl_snoc_map)

lemma append_table_cells_eq:
  "append_table_cells st acc t =
     acc @ concat (map (\<lambda>r. map (cell_text st) (cells r)) (rows t))"
proof -
  have "foldl (append_row_cells st) a rs =
          a @ concat (map (\<lambda>r. map (cell_text st) (cells r)) rs)"
    for a rs
    by (induction rs arbitrary: a) (simp_all add: append_row_cells_eq)
  then show ?thesis by (simp add: append_table_cells_def)
qed

lemma foldl_append_table_cells:
  "foldl (append_table_cells st) acc ts =
     acc @ concat (map (\<lambda>t. concat (map (\<lambda>r. map (cell_text st) (cells r)) (rows t))) ts)"
  by (induction ts arbitrary: acc) (simp_all add: append_table_cells_eq)

lemma lower_char_idem: "lower_char (lower_char c) = lower_char c"
  by (auto simp: lower_char_def Let_def)

lemma lower_idem: "lower (lower s) = lower s"
  by (simp add: lower_def lower_char_idem)

text \<open>
  C8. With python-docx installed, extracting a DOCX buffer under a kind that lowers to
  \<open>docx\<close> returns the texts of the body paragraphs in document order, followed by the
  texts of the cells of every table, tables in order, each table row by row and each row
  cell by cell; the empty strings are dropped and the rest is joined by a line feed. A
  document with the one paragraph \<open>A\<close> and a table of one cell \<open>B\<close> gives \<open>A\<close>, a
  line feed, \<open>B\<close>.
\<close>

theorem extract_text_docx:
  assumes "Document_installed e" and "lower kind = ''docx''"
  shows "extract_text e (Docx doc) kind =
     Inr (join [CHR 0x0A] (filter (\<lambda>s. s \<noteq> [])
       (map (\<lambda>p. paragraph_text (content doc p)) (paragraphs doc) @
        concat (map (\<lambda>t. concat (map (\<lambda>r. map (cell_text (content doc)) (cells r)) (rows t)))
          (tables doc)))))"
  using assms by (simp add: extract_text_def extract_docx_def foldl_append_table_cells)

theorem extract_text_docx_witness:
  "extract_text \<lparr>Document_installed = True, PyPDF2_installed = False\<rparr>
     (Docx \<lparr>content = store_of [\<lparr>runs = [''A'']\<rparr>, \<lparr>runs = [''B'']\<rparr>],
            paragraphs = [0], sections = [],
            tables = [\<lparr>rows = [\<lparr>cells = [\<lparr>cell_paragraphs = [1]\<rparr>]\<rparr>]\<rparr>]\<rparr>)
     ''docx''
   = Inr [CHR ''A'', CHR 0x0A, CHR ''B'']"
proof -
  have l: "lower ''docx'' = ''docx''"
    by code_simp
  show ?thesis
    using extract_text_docx
      [of "\<lparr>Document_installed = True, PyPDF2_installed = False\<rparr>" "''docx''"
          "\<lparr>content = store_of [\<lparr>runs = [''A'']\<rparr>, \<lparr>runs = [''B'']\<rparr>],
            paragraphs = [0], sections = [],
            tables = [\<lparr>rows = [\<lparr>cells = [\<lparr>cell_paragraphs = [1]\<rparr>]\<rparr>]\<rparr>]\<rparr>"]
    by (simp add: l paragraph_text_def cell_text_def store_of_def)
qed

text \<open>
  C9. Extraction fails with the error for an unsupported type exactly when the lowered
  kind is neither \<open>docx\<close> nor \<open>pdf\<close>, whatever the buffer and whichever libraries are
  installed; and a kind is treated as its lowered form, so \<open>DOCX\<close> and \<open>Pdf\<close> are
  accepted. The kind \<open>xlsx\<close> is refused.
\<close>

theorem extract_text_unsupported_format:
  "((extract_text e b kind = Inl (ValueError ''Tipo de arquivo nao suportado.'')) =
     (lower kind \<noteq> ''docx'' \<and> lower kind \<noteq> ''pdf''))
   \<and> extract_text e b kind = extract_text e b (lower kind)"
  by (auto simp: extract_text_def Let_def lower_idem split: buffer.splits)

theorem extract_text_unsupported_format_witness:
  "extract_text \<lparr>Document_installed = True, PyPDF2_installed = True\<rparr> Malformed ''xlsx''
     = Inl (ValueError ''Tipo de arquivo nao suportado.'')
   \<and> extract_text \<lparr>Document_installed = True, PyPDF2_installed = True\<rparr> (Pdf [Some ''x'']) ''Pdf''
     = Inr ''x''"
proof -
  have l: "lower ''xlsx'' = ''xlsx''" "lower ''Pdf'' = ''pdf''" "lower ''pdf'' = ''pdf''"
    by code_simp+
  show ?thesis
    using extract_text_unsupported_format
      [of "\<lparr>Document_installed = True, PyPDF2_installed = True\<rparr>" Malformed "''xlsx''"]
      extract_text_unsupported_format
      [of "\<lparr>Document_installed = True, PyPDF2_installed = True\<rparr>" "Pdf [Some ''x'']" "''Pdf''"]
    by (simp add: l extract_text_def extract_pdf_def)
qed

section \<open>Properties of parse\_key\_values\<close>

lemma parse_lines_spec:
  "parse_lines d ls =
     foldl (\<lambda>d (k, v). dict_set d k v) d
       (map (\<lambda>line. (spec_key line, spec_value line)) (filter (\<lambda>line. \<not> spec_ignored line) ls))"
  by (induction ls arbitrary: d)
     (auto simp: spec_ignored_def spec_key_def spec_value_def split_colon_1_def Let_def)

lemma map_of_dict_set: "map_of (dict_set d k v) = (map_of d)(k \<mapsto> v)"
  by (induction d k v rule: dict_set.induct) auto

lemma dict_set_keys: "fst ` set (dict_set d k v) = insert k (fst ` set d)"
  by (induction d k v rule: dict_set.induct) auto

lemma distinct_dict_set: "distinct (map fst d) \<Longrightarrow> distinct (map fst (dict_set d k v))"
  by (induction d k v rule: dict_set.induct) (auto simp: dict_set_keys)

lemma map_of_foldl_dict_set:
  "map_of (foldl (\<lambda>d (k, v). dict_set d k v) d ps) k =
     (case filter (\<lambda>p. fst p = k) ps of [] \<Rightarrow> map_of d k | q # qs \<Rightarrow> Some (snd (last (q # qs))))"
proof (induction ps arbitrary: d)
  case Nil
  then show ?case by simp
next
  case (Cons p ps)
  obtain a b where p: "p = (a, b)" by (cases p)
  show ?case
    by (cases "a = k") (auto simp: Cons.IH p map_of_dict_set split: list.splits)
qed

lemma map_of_foldl_dict_set_empty:
  "map_of (foldl (\<lambda>d (k, v). dict_set d k v) [] ps) k =
     (case filter (\<lambda>p. fst p = k) ps of [] \<Rightarrow> None | q # qs \<Rightarrow> Some (snd (last (q # qs))))"
  by (simp add: map_of_foldl_dict_set split: list.split)

lemma foldl_dict_set_keys:
  "fst ` set (foldl (\<lambda>d (k, v). dict_set d k v) d ps) = fst ` set d \<union> fst ` set ps"
proof (induction ps arbitrary: d)
  case Nil
  then show ?case by simp
next
  case (Cons p ps)
  obtain a b where p: "p = (a, b)" by (cases p)
  have "fst ` set (foldl (\<lambda>d (k, v). dict_set d k v) (dict_set d a b) ps) =
          fst ` set (dict_set d a b) \<union> fst ` set ps"
    by (rule Cons.IH)
  then show ?case by (simp add: p dict_set_keys)
qed

lemma foldl_dict_set_distinct:
  "distinct (map fst d) \<Longrightarrow> distinct (map fst (foldl (\<lambda>d (k, v). dict_set d k v) d ps))"
  by (induction ps arbitrary: d) (auto simp: distinct_dict_set)

lemma is_linebreak_CR: "is_linebreak (CHR 0x0D)"
  by (simp add: is_linebreak_def)

lemma splitlines_from_single:
  "\<forall>c\<in>set s. \<not> is_linebreak c \<Longrightarrow> cur @ s \<noteq> [] \<Longrightarrow> splitlines_from cur s = [cur @ s]"
  by (induction cur s rule: splitlines_from.induct) (auto simp: is_linebreak_CR)

lemma splitlines_single:
  "\<forall>c\<in>set s. \<not> is_linebreak c \<Longrightarrow> s \<noteq> [] \<Longrightarrow> splitlines s = [s]"
  using splitlines_from_single [of s "[]"] by (simp add: splitlines_def)

lemma rstrip_Cons: "\<not> isspace x \<Longrightarrow> rstrip (x # xs) = x # rstrip xs"
  by (simp add: rstrip_def dropWhile_append3)

lemma rstrip_idem: "rstrip (rstrip s) = rstrip s"
  by (simp add: rstrip_def)

lemma rstrip_append_nonspace: "\<not> isspace x \<Longrightarrow> rstrip (xs @ x # ys) = xs @ x # rstrip ys"
  by (simp add: rstrip_def dropWhile_append3)

lemma lstrip_rstrip: "lstrip (rstrip s) = rstrip (lstrip s)"
proof (cases "lstrip s")
  case Nil
  then have a: "\<forall>c\<in>set s. isspace c" by (simp add: lstrip_def)
  then have d: "dropWhile isspace (rev s) = []" "dropWhile isspace s = []" by simp_all
  show ?thesis unfolding rstrip_def lstrip_def d by simp
next
  case (Cons x xs)
  then have x: "\<not> isspace x" unfolding lstrip_def by (metis dropWhile_eq_Cons_conv)
  have s: "s = takeWhile isspace s @ x # xs"
    using Cons unfolding lstrip_def by (metis takeWhile_dropWhile_id)
  have "rstrip s = takeWhile isspace s @ x # rstrip xs"
    by (subst s) (simp only: rstrip_append_nonspace [OF x])
  moreover have "dropWhile isspace (takeWhile isspace s @ x # rstrip xs) = x # rstrip xs"
    using x by (subst dropWhile_append2) (auto dest: set_takeWhileD)
  ultimately have "lstrip (rstrip s) = x # rstrip xs"
    by (simp add: lstrip_def)
  with Cons x show ?thesis by (simp add: rstrip_Cons)
qed

lemma strip_rstrip: "strip (rstrip s) = strip s"
  by (simp add: strip_def lstrip_rstrip rstrip_idem)

lemma strip_lstrip: "strip (lstrip s) = strip s"
  by (simp add: strip_def lstrip_def)

lemma not_isspace_colon: "\<not> isspace (CHR '':'')"
  by (simp add: isspace_def)

lemma strip_key_value_line:
  assumes "strip k \<noteq> []"
  shows "strip (k @ CHR '':'' # v) = lstrip k @ CHR '':'' # rstrip v"
proof -
  from assms have "lstrip k \<noteq> []" by (auto simp: strip_def rstrip_def)
  then obtain c where "c \<in> set k" and "\<not> isspace c" by (auto simp: lstrip_def)
  then have "lstrip (k @ CHR '':'' # v) = lstrip k @ CHR '':'' # v"
    unfolding lstrip_def by (rule dropWhile_append1)
  then show ?thesis
    by (simp add: strip_def rstrip_append_nonspace not_isspace_colon)
qed

lemma split_colon_1_at:
  "CHR '':'' \<notin> set a \<Longrightarrow> split_colon_1 (a @ CHR '':'' # b) = (a, b)"
  by (induction a) (auto simp: split_colon_1_def)

lemma set_lstrip: "set (lstrip k) \<subseteq> set k"
  by (simp add: lstrip_def set_dropWhileD subsetI)

text \<open>
  C4, for lines that are no comments. A line (no line boundary inside) that has a colon,
  a non-empty trimmed key before its first colon, and whose trimmed form does not start
  with \<open>#\<close>, is split at that first colon: the loop stores the trimmed key with the
  trimmed rest of the line, further colons included, and a text that is this one line
  parses to exactly this pair. A line whose trimmed form starts with \<open>#\<close> is passed over
  even when it has a colon and a key: \<open>#k: v\<close> parses to the empty dictionary.
\<close>

theorem parse_key_values_line:
  assumes line: "line = k @ CHR '':'' # v"
    and nocolon: "CHR '':'' \<notin> set k"
    and key: "strip k \<noteq> []"
    and nocomment: "\<not> startswith (strip line) ''#''"
    and oneline: "\<forall>c\<in>set line. \<not> is_linebreak c"
  shows "parse_lines pairs (line # rest) = parse_lines (dict_set pairs (strip k) (strip v)) rest
       \<and> parse_key_values line = [(strip k, strip v)]"
proof -
  have cleaned: "strip line = lstrip k @ CHR '':'' # rstrip v"
    using key by (simp add: line strip_key_value_line)
  have nc: "CHR '':'' \<notin> set (lstrip k)"
    using nocolon set_lstrip by blast
  have split: "split_colon_1 (lstrip k @ CHR '':'' # rstrip v) = (lstrip k, rstrip v)"
    by (rule split_colon_1_at [OF nc])
  have step: "parse_lines d (line # ls) = parse_lines (dict_set d (strip k) (strip v)) ls"
    for d ls
    using nocomment key
    by (simp add: cleaned split strip_lstrip strip_rstrip)
  have "splitlines line = [line]"
    using oneline by (simp add: splitlines_single line)
  then have "parse_key_values line = [(strip k, strip v)]"
    by (simp add: parse_key_values_def step del: parse_lines.simps(2))
  with step show ?thesis by simp
qed

theorem parse_key_values_line_witness:
  "parse_key_values ''key : value with: colon'' = [(''key'', ''value with: colon'')]"
proof -
  have h1: "strip ''key '' = ''key''" "strip '' value with: colon'' = ''value with: colon''"
    by code_simp+
  have h2: "\<not> startswith (strip ''key : value with: colon'') ''#''"
    by code_simp
  have h3: "\<forall>c\<in>set ''key : value with: colon''. \<not> is_linebreak c"
    by code_simp
  show ?thesis
    using parse_key_values_line
      [of "''key : value with: colon''" "''key ''" "'' value with: colon''" "[]" "[]",
        OF _ _ _ h2 h3]
    by (simp add: h1)
qed

theorem parse_comment_line_counterexample:
  "CHR '':'' \<in> set ''#k: v'' \<and> spec_key ''#k: v'' = ''#k'' \<and> spec_value ''#k: v'' = ''v''
   \<and> parse_key_values ''#k: v'' = []"
  by code_simp

text \<open>
  C5. Looking a key up in the parsed dictionary gives the value of the last valid line
  that has this key (and nothing when no valid line has it); the keys of the dictionary
  are distinct. The two lines \<open>a:1\<close> and \<open>a:2\<close> parse to the one pair of \<open>a\<close> and
  \<open>2\<close>.
\<close>

theorem parse_key_values_last_wins:
  "dict_get (parse_key_values raw_text) k =
     (case filter (\<lambda>p. fst p = k) (spec_valid_pairs raw_text) of
        [] \<Rightarrow> None
      | q # qs \<Rightarrow> Some (snd (last (q # qs))))
   \<and> distinct (map fst (parse_key_values raw_text))"
  by (simp add: dict_get_def parse_key_values_def spec_valid_pairs_def parse_lines_spec
      map_of_foldl_dict_set_empty foldl_dict_set_distinct)

theorem parse_key_values_last_wins_witness:
  "dict_get (parse_key_values ''a:1\<newline>a:2'') ''a'' = Some ''2''
   \<and> parse_key_values ''a:1\<newline>a:2'' = [(''a'', ''2'')]"
proof -
  have v: "spec_valid_pairs ''a:1\<newline>a:2'' = [(''a'', ''1''), (''a'', ''2'')]"
    by code_simp
  have p: "parse_key_values ''a:1\<newline>a:2'' = [(''a'', ''2'')]"
    by code_simp
  show ?thesis
    using parse_key_values_last_wins [of "''a:1\<newline>a:2''" "''a''"]
    by (simp add: v p)
qed

text \<open>
  C6. The parsed dictionary is the one built, by assignment in line order, from the
  pairs of the valid lines alone: every line whose trimmed form is empty, starts with
  \<open>#\<close>, has no colon or has an empty trimmed key is passed over, wherever it stands.
  The keys of the result are the keys of the valid lines and each of its pairs is the pair
  of a valid line. The text \<open>: value\<close> parses to the empty dictionary.
\<close>

theorem parse_key_values_valid_pairs:
  "parse_key_values raw_text =
     foldl (\<lambda>d (k, v). dict_set d k v) [] (spec_valid_pairs raw_text)
   \<and> fst ` set (parse_key_values raw_text) = fst ` set (spec_valid_pairs raw_text)
   \<and> set (parse_key_values raw_text) \<subseteq> set (spec_valid_pairs raw_text)
   \<and> (spec_ignored l \<longrightarrow> parse_lines d (ls1 @ l # ls2) = parse_lines d (ls1 @ ls2))"
proof -
  let ?ps = "spec_valid_pairs raw_text"
  have eq: "parse_key_values raw_text = foldl (\<lambda>d (k, v). dict_set d k v) [] ?ps"
    by (simp add: parse_key_values_def spec_valid_pairs_def parse_lines_spec)
  have keys: "fst ` set (parse_key_values raw_text) = fst ` set ?ps"
    by (simp add: eq foldl_dict_set_keys)
  have sub: "set (parse_key_values raw_text) \<subseteq> set ?ps"
  proof
    fix x assume x: "x \<in> set (parse_key_values raw_text)"
    obtain a b where ab: "x = (a, b)" by (cases x)
    have "distinct (map fst (parse_key_values raw_text))"
      by (simp add: eq foldl_dict_set_distinct)
    with x ab have "map_of (parse_key_values raw_text) a = Some b"
      by simp
    then have m: "(case filter (\<lambda>p. fst p = a) ?ps of [] \<Rightarrow> None
                  | q # qs \<Rightarrow> Some (snd (last (q # qs)))) = Some b"
      by (simp add: eq map_of_foldl_dict_set_empty)
    then obtain q qs where f: "filter (\<lambda>p. fst p = a) ?ps = q # qs"
      and b: "b = snd (last (q # qs))"
      by (auto split: list.splits)
    have "last (q # qs) \<in> set (filter (\<lambda>p. fst p = a) ?ps)"
      unfolding f by (rule last_in_set) simp
    then have "last (q # qs) \<in> set ?ps" and "fst (last (q # qs)) = a"
      by simp_all
    with b ab show "x \<in> set ?ps"
      by (metis prod.collapse)
  qed
  have ign: "spec_ignored l \<longrightarrow> parse_lines d (ls1 @ l # ls2) = parse_lines d (ls1 @ ls2)"
    by (simp add: parse_lines_spec)
  from eq keys sub ign show ?thesis by blast
qed

theorem parse_key_values_valid_pairs_witness:
  "parse_key_values '': value'' = []
   \<and> parse_key_values ''# c\<newline>\<newline>a: 1\<newline>nocolon\<newline>: v\<newline>b : 2'' = [(''a'', ''1''), (''b'', ''2'')]"
proof -
  have v: "spec_valid_pairs '': value'' = []"
    "spec_valid_pairs ''# c\<newline>\<newline>a: 1\<newline>nocolon\<newline>: v\<newline>b : 2'' = [(''a'', ''1''), (''b'', ''2'')]"
    by code_simp+
  show ?thesis
    using parse_key_values_valid_pairs [of "'': value''"]
      parse_key_values_valid_pairs [of "''# c\<newline>\<newline>a: 1\<newline>nocolon\<newline>: v\<newline>b : 2''"]
    by (simp add: v)
qed

section \<open>Properties of fill\_template\_with\_values\<close>

lemma placeholder_nonempty: "placeholder key \<noteq> []"
  by (simp add: placeholder_def)

lemma placeholder_Cons: "placeholder key = CHR ''{'' # CHR ''{'' # key @ ''}}''"
  by (simp add: placeholder_def)

lemma py_replace_absent:
  "old \<noteq> [] \<Longrightarrow> \<not> sublist old s \<Longrightarrow> py_replace s old new = s"
  by (induction s old new rule: py_replace.induct) (auto simp: sublist_Cons_right)

lemma py_replace_prefix:
  "old \<noteq> [] \<Longrightarrow> py_replace (old @ rest) old new = new @ py_replace rest old new"
  by (cases old) simp_all

lemma py_replace_skip:
  "old \<noteq> [] \<Longrightarrow> \<forall>i<length a. \<not> prefix old (drop i (a @ b)) \<Longrightarrow>
     py_replace (a @ b) old new = a @ py_replace b old new"
proof (induction a)
  case Nil
  then show ?case by simp
next
  case (Cons x a)
  from Cons.prems(2) have "\<not> prefix old (drop 0 ((x # a) @ b))" by blast
  then have np: "\<not> prefix old (x # a @ b)" by simp
  have "\<forall>i<length a. \<not> prefix old (drop i (a @ b))"
  proof (intro allI impI)
    fix i assume "i < length a"
    then have "Suc i < length (x # a)" by simp
    with Cons.prems(2) have "\<not> prefix old (drop (Suc i) ((x # a) @ b))" by blast
    then show "\<not> prefix old (drop i (a @ b))" by simp
  qed
  with Cons.IH Cons.prems(1) have "py_replace (a @ b) old new = a @ py_replace b old new" by blast
  with np Cons.prems(1) show ?case by simp
qed

lemma apply_values_spec: "apply_values t vals = spec_fill_text vals t"
proof (induction vals arbitrary: t)
  case Nil
  then show ?case by (simp add: spec_fill_text_def)
next
  case (Cons kv vals)
  obtain key v where kv: "kv = (key, v)" by (cases kv)
  have "(if str_in (placeholder key) t then py_replace t (placeholder key) v else t) =
          py_replace t (placeholder key) v"
    by (simp add: str_in_def py_replace_absent placeholder_nonempty)
  with Cons.IH show ?case
    by (auto simp: kv spec_fill_text_def)
qed

lemma apply_values_no_placeholder:
  "\<forall>key\<in>fst ` set vals. \<not> str_in (placeholder key) t \<Longrightarrow> apply_values t vals = t"
  by (induction vals arbitrary: t) auto

subsection \<open>The filler visits the paragraphs one after another\<close>

lemma paragraph_text_replace:
  "paragraph_text (replace_in_paragraph vals p) = apply_values (paragraph_text p) vals"
  by (simp add: replace_in_paragraph_def Let_def set_paragraph_text_def paragraph_text_def)

lemma replace_in_paragraph_same:
  "apply_values (paragraph_text p) vals = paragraph_text p \<Longrightarrow> replace_in_paragraph vals p = p"
  by (simp add: replace_in_paragraph_def)

lemma replace_in_paragraphs_append:
  "replace_in_paragraphs (a @ b) vals st =
     replace_in_paragraphs b vals (replace_in_paragraphs a vals st)"
  by (induction a arbitrary: st) simp_all

lemma fill_hdrftr_eq:
  "fill_hdrftr vals h st = replace_in_paragraphs (hdrftr_paragraphs h) vals st"
  by (cases h) (simp_all add: fill_hdrftr_def hdrftr_paragraphs_def)

lemma fill_section_eq:
  "fill_section vals st s = replace_in_paragraphs (section_paragraphs s) vals st"
  by (simp add: fill_section_def section_paragraphs_def fill_hdrftr_eq
      replace_in_paragraphs_append)

lemma foldl_fill_section:
  "foldl (fill_section vals) st ss =
     replace_in_paragraphs (concat (map section_paragraphs ss)) vals st"
  by (induction ss arbitrary: st) (simp_all add: fill_section_eq replace_in_paragraphs_append)

lemma foldl_fill_cell:
  "foldl (fill_cell vals) st cs =
     replace_in_paragraphs (concat (map cell_paragraphs cs)) vals st"
  by (induction cs arbitrary: st) (simp_all add: fill_cell_def replace_in_paragraphs_append)

lemma foldl_fill_row:
  "foldl (fill_row vals) st rs =
     replace_in_paragraphs (concat (map (\<lambda>r. concat (map cell_paragraphs (cells r))) rs)) vals st"
  by (induction rs arbitrary: st)
     (simp_all add: fill_row_def foldl_fill_cell replace_in_paragraphs_append)

lemma fill_table_eq:
  "fill_table vals st t = replace_in_paragraphs (table_paragraphs t) vals st"
  by (simp add: fill_table_def table_paragraphs_def foldl_fill_row)

lemma foldl_fill_table:
  "foldl (fill_table vals) st ts =
     replace_in_paragraphs (concat (map table_paragraphs ts)) vals st"
  by (induction ts arbitrary: st) (simp_all add: fill_table_eq replace_in_paragraphs_append)

lemma content_fill_document:
  "content (fill_document doc vals) = replace_in_paragraphs (visit_order doc) vals (content doc)"
  by (simp add: fill_document_def Let_def visit_order_def foldl_fill_section foldl_fill_table
      replace_in_paragraphs_append)

lemma visit_order_fill_document: "visit_order (fill_document doc vals) = visit_order doc"
  by (simp add: fill_document_def Let_def visit_order_def)

lemma fill_document_content:
  "fill_document doc vals = doc\<lparr>content := replace_in_paragraphs (visit_order doc) vals (content doc)\<rparr>"
  by (simp add: fill_document_def Let_def visit_order_def foldl_fill_section foldl_fill_table
      replace_in_paragraphs_append)

lemma replace_in_paragraphs_apply:
  "replace_in_paragraphs ps vals st q =
     (replace_in_paragraph vals ^^ count_list ps q) (st q)"
  by (induction ps arbitrary: st) (simp_all add: funpow_swap1)

lemma paragraph_text_funpow:
  "paragraph_text ((replace_in_paragraph vals ^^ n) x) =
     ((\<lambda>t. apply_values t vals) ^^ n) (paragraph_text x)"
  by (induction n) (simp_all add: paragraph_text_replace)

lemma replace_in_paragraphs_same:
  "\<forall>p\<in>set ps. replace_in_paragraph vals (st p) = st p \<Longrightarrow> replace_in_paragraphs ps vals st = st"
  by (induction ps arbitrary: st) simp_all

lemma fill_document_same:
  assumes "\<forall>p\<in>set (reachable_paragraphs doc). apply_values (paragraph_text p) vals = paragraph_text p"
  shows "fill_document doc vals = doc"
proof -
  have "\<forall>p\<in>set (visit_order doc). replace_in_paragraph vals (content doc p) = content doc p"
    using assms by (simp add: reachable_paragraphs_def replace_in_paragraph_same)
  then have "replace_in_paragraphs (visit_order doc) vals (content doc) = content doc"
    by (rule replace_in_paragraphs_same)
  then show ?thesis by (simp add: fill_document_content)
qed

lemma reachable_paragraphs_fill:
  "reachable_paragraphs (fill_document doc vals) =
     map (\<lambda>p. (replace_in_paragraph vals ^^ visits doc p) (content doc p)) (visit_order doc)"
  by (simp add: reachable_paragraphs_def visit_order_fill_document content_fill_document
      replace_in_paragraphs_apply visits_def)

lemma visits_positive: "p \<in> set (visit_order doc) \<Longrightarrow> 0 < visits doc p"
  using count_list_0_iff [of "visit_order doc" p] by (simp add: visits_def)

subsection \<open>Placeholders of keys without braces do not overlap\<close>

lemma brace_free_Cons: "brace_free (c # cs) = (\<not> is_brace c \<and> brace_free cs)"
  by (simp add: brace_free_def)

lemma brace_free_Nil: "brace_free []"
  by (simp add: brace_free_def)

lemma brace_free_key_eq:
  "brace_free j \<Longrightarrow> brace_free k \<Longrightarrow> prefix (j @ CHR ''}'' # x) (k @ CHR ''}'' # y) \<Longrightarrow> j = k"
proof (induction j arbitrary: k)
  case Nil
  then show ?case by (cases k) (auto simp: brace_free_Cons is_brace_def)
next
  case (Cons c j)
  then show ?case by (cases k) (auto simp: brace_free_Cons is_brace_def)
qed

lemma no_open_brace_prefix:
  assumes "\<forall>c\<in>set w. c \<noteq> CHR ''{''" and "m < length w"
  shows "\<not> prefix (CHR ''{'' # xs) (drop m (w @ b))"
proof
  assume p: "prefix (CHR ''{'' # xs) (drop m (w @ b))"
  from assms(2) have "drop m (w @ b) = (w ! m) # drop (Suc m) w @ b"
    by (simp add: Cons_nth_drop_Suc)
  with p have "w ! m = CHR ''{''" by simp
  moreover from assms have "w ! m \<noteq> CHR ''{''" by simp
  ultimately show False by contradiction
qed

lemma key_close_no_open:
  "brace_free k \<Longrightarrow> \<forall>c\<in>set (k @ ''}}''). c \<noteq> CHR ''{''"
  by (auto simp: brace_free_def list_all_iff is_brace_def)

lemma placeholder_no_overlap:
  assumes j: "brace_free j" and k: "brace_free k" and ne: "j \<noteq> k"
    and i: "i < length (placeholder k)"
  shows "\<not> prefix (placeholder j) (drop i (placeholder k @ b))"
proof (cases i)
  case 0
  show ?thesis
  proof
    assume "prefix (placeholder j) (drop i (placeholder k @ b))"
    with 0 have "prefix (j @ CHR ''}'' # CHR ''}'' # []) (k @ CHR ''}'' # (CHR ''}'' # b))"
      by (simp add: placeholder_def)
    with j k have "j = k" by (rule brace_free_key_eq)
    with ne show False by contradiction
  qed
next
  case (Suc i1)
  note i1 = Suc
  show ?thesis
  proof (cases i1)
    case 0
    have "\<not> prefix (CHR ''{'' # j @ ''}}'') (drop 0 ((k @ ''}}'') @ b))"
      by (rule no_open_brace_prefix [OF key_close_no_open [OF k]]) simp
    with 0 i1 show ?thesis by (simp add: placeholder_def)
  next
    case (Suc m)
    with i i1 have m: "m < length (k @ ''}}'')" by (simp add: placeholder_def)
    have "\<not> prefix (CHR ''{'' # CHR ''{'' # j @ ''}}'') (drop m ((k @ ''}}'') @ b))"
      by (rule no_open_brace_prefix [OF key_close_no_open [OF k] m])
    with Suc i1 show ?thesis by (simp add: placeholder_def)
  qed
qed

lemma py_replace_other_placeholder:
  assumes "brace_free j" and "brace_free k" and "j \<noteq> k"
  shows "py_replace (placeholder k @ b) (placeholder j) v =
           placeholder k @ py_replace b (placeholder j) v"
  using placeholder_no_overlap [OF assms]
  by (intro py_replace_skip [OF placeholder_nonempty]) blast

lemma sublist_behind_other_placeholder:
  assumes j: "brace_free j" and k: "brace_free k" and ne: "j \<noteq> k"
    and sub: "sublist (placeholder k) (placeholder j @ rest)"
  shows "sublist (placeholder k) rest"
proof -
  from sub obtain a b where ab: "placeholder j @ rest = a @ placeholder k @ b"
    by (auto simp: sublist_def)
  have "length (placeholder j) \<le> length a"
  proof (rule ccontr)
    assume "\<not> length (placeholder j) \<le> length a"
    then have "length a < length (placeholder j)" by simp
    then have "\<not> prefix (placeholder k) (drop (length a) (placeholder j @ rest))"
      using placeholder_no_overlap [OF k j] ne by blast
    moreover have "drop (length a) (placeholder j @ rest) = placeholder k @ b"
      by (simp add: ab)
    ultimately show False by simp
  qed
  then have "rest = drop (length (placeholder j)) a @ placeholder k @ b"
    using ab by (metis append_eq_conv_conj drop_append diff_is_0_eq drop0 append.assoc append_eq_append_conv_if)
  then show ?thesis by (metis sublist_appendI)
qed

lemma sublist_py_replace_other:
  assumes j: "brace_free j" and k: "brace_free k" and ne: "j \<noteq> k"
  shows "sublist (placeholder k) t \<Longrightarrow> sublist (placeholder k) (py_replace t (placeholder j) v)"
proof (induction t "placeholder j" v rule: py_replace.induct)
  case (1 new)
  then show ?case by (simp add: placeholder_nonempty)
next
  case (2 c cs new)
  show ?case
  proof (cases "prefix (placeholder j) (c # cs)")
    case True
    then obtain rest where rest: "c # cs = placeholder j @ rest"
      by (auto simp: prefix_def)
    then have d: "drop (length (placeholder j)) (c # cs) = rest" by simp
    from "2.prems" have "sublist (placeholder k) rest"
      unfolding rest by (rule sublist_behind_other_placeholder [OF j k ne])
    with "2.hyps"(2) [OF placeholder_nonempty True] d
    have "sublist (placeholder k) (py_replace rest (placeholder j) new)" by simp
    then have "sublist (placeholder k) (new @ py_replace rest (placeholder j) new)"
      by (metis sublist_appendI append_Nil2 sublist_order.order.trans sublist_append_rightI sublist_append_leftI)
    with True d show ?thesis by (simp add: placeholder_nonempty)
  next
    case False
    from "2.prems" have "prefix (placeholder k) (c # cs) \<or> sublist (placeholder k) cs"
      by (simp add: sublist_Cons_right)
    then show ?thesis
    proof
      assume "prefix (placeholder k) (c # cs)"
      then obtain b where b: "c # cs = placeholder k @ b"
        by (auto simp: prefix_def)
      have "py_replace (c # cs) (placeholder j) new = placeholder k @ py_replace b (placeholder j) new"
        unfolding b by (rule py_replace_other_placeholder [OF j k ne])
      then show ?thesis by (metis sublist_appendI append_Nil)
    next
      assume "sublist (placeholder k) cs"
      with "2.hyps"(3) [OF placeholder_nonempty False]
      have "sublist (placeholder k) (py_replace cs (placeholder j) new)" by simp
      then have "sublist (placeholder k) (c # py_replace cs (placeholder j) new)"
        by (simp add: sublist_Cons_right)
      with False show ?thesis by (simp add: placeholder_nonempty)
    qed
  qed
qed

lemma apply_values_keeps_placeholder:
  assumes k: "brace_free k"
  shows "\<forall>key\<in>fst ` set vals. brace_free key \<Longrightarrow> k \<notin> fst ` set vals \<Longrightarrow>
     str_in (placeholder k) t \<Longrightarrow> str_in (placeholder k) (apply_values t vals)"
proof (induction vals arbitrary: t)
  case Nil
  then show ?case by simp
next
  case (Cons kv vals)
  obtain key v where kv: "kv = (key, v)" by (cases kv)
  from Cons.prems kv have key: "brace_free key" and ne: "key \<noteq> k" by auto
  have step: "str_in (placeholder k) (py_replace t (placeholder key) v)"
    using Cons.prems(3) unfolding str_in_def by (rule sublist_py_replace_other [OF key k ne])
  from Cons.prems have rest: "\<forall>key\<in>fst ` set vals. brace_free key" "k \<notin> fst ` set vals"
    by auto
  show ?case
    using Cons.IH [OF rest step] Cons.IH [OF rest Cons.prems(3)] by (simp add: kv)
qed

lemma render_append: "render (a @ b) = render a @ render b"
  by (induction a rule: render.induct) simp_all

lemma render_Lits: "render (map Lit v) = v"
  by (induction v) simp_all

lemma well_formed_append: "well_formed (a @ b) = (well_formed a \<and> well_formed b)"
  by (induction a rule: well_formed.induct) simp_all

lemma well_formed_Lits: "brace_free v \<Longrightarrow> well_formed (map Lit v)"
  by (induction v) (simp_all add: brace_free_Cons)

lemma fill_pieces_Nil: "fill_pieces vals [] = []"
  by (simp add: fill_pieces_def)

lemma fill_pieces_Cons: "fill_pieces vals (pc # ps) = fill_piece vals pc @ fill_pieces vals ps"
  by (simp add: fill_pieces_def)

lemma fill_pieces_append: "fill_pieces vals (a @ b) = fill_pieces vals a @ fill_pieces vals b"
  by (simp add: fill_pieces_def)

lemma fill_pieces_Lits: "fill_pieces vals (map Lit v) = map Lit v"
  by (induction v) (simp_all add: fill_pieces_Cons fill_pieces_Nil)

lemma py_replace_literal:
  assumes "\<not> is_brace c"
  shows "py_replace (c # t) (placeholder j) v = c # py_replace t (placeholder j) v"
proof -
  from assms have "\<not> prefix (placeholder j) (c # t)"
    by (auto simp: placeholder_def is_brace_def)
  then show ?thesis by (simp add: placeholder_nonempty)
qed

lemma py_replace_render:
  assumes j: "brace_free j"
  shows "well_formed ps \<Longrightarrow>
     py_replace (render ps) (placeholder j) v = render (fill_pieces [(j, v)] ps)"
proof (induction ps rule: render.induct)
  case 1
  then show ?case by (simp add: fill_pieces_Nil placeholder_nonempty)
next
  case (2 c ps)
  then show ?case by (simp add: fill_pieces_Cons py_replace_literal del: py_replace.simps)
next
  case (3 key ps)
  then have key: "brace_free key" and IH: "py_replace (render ps) (placeholder j) v = render (fill_pieces [(j, v)] ps)"
    by simp_all
  show ?case
  proof (cases "key = j")
    case True
    then show ?thesis
      by (simp add: fill_pieces_Cons py_replace_prefix [OF placeholder_nonempty] IH
          render_append render_Lits del: py_replace.simps)
  next
    case False
    then have "j \<noteq> key" by blast
    then show ?thesis
      using False
      by (simp add: fill_pieces_Cons py_replace_other_placeholder [OF j key] IH
          del: py_replace.simps)
  qed
qed

lemma well_formed_fill_pieces:
  "\<forall>(key, v)\<in>set vals. brace_free v \<Longrightarrow> well_formed ps \<Longrightarrow> well_formed (fill_pieces vals ps)"
proof (induction ps rule: well_formed.induct)
  case 1
  then show ?case by (simp add: fill_pieces_Nil)
next
  case (2 c ps)
  then show ?case by (simp add: fill_pieces_Cons)
next
  case (3 key ps)
  show ?case
  proof (cases "map_of vals key")
    case None
    with 3 show ?thesis by (simp add: fill_pieces_Cons)
  next
    case (Some v)
    then have "(key, v) \<in> set vals" by (rule map_of_SomeD)
    with "3.prems"(1) have "brace_free v" by blast
    with 3 Some show ?thesis by (simp add: fill_pieces_Cons well_formed_append well_formed_Lits)
  qed
qed

lemma fill_pieces_step:
  "fill_pieces vals (fill_pieces [(j, v)] ps) = fill_pieces ((j, v) # vals) ps"
proof (induction ps)
  case Nil
  then show ?case by (simp add: fill_pieces_Nil)
next
  case (Cons pc ps)
  then show ?case
    by (cases pc) (simp_all add: fill_pieces_Cons fill_pieces_append fill_pieces_Lits fill_pieces_Nil)
qed

lemma apply_values_render:
  "\<forall>(key, v)\<in>set vals. brace_free key \<and> brace_free v \<Longrightarrow> well_formed ps \<Longrightarrow>
     apply_values (render ps) vals = render (fill_pieces vals ps)"
proof (induction vals arbitrary: ps)
  case Nil
  have "fill_pieces [] ps = ps"
    by (induction ps rule: render.induct) (simp_all add: fill_pieces_Cons fill_pieces_Nil)
  then show ?case by simp
next
  case (Cons kv vals)
  obtain j v where kv: "kv = (j, v)" by (cases kv)
  from Cons.prems kv have j: "brace_free j" and v: "brace_free v"
    and rest: "\<forall>(key, v)\<in>set vals. brace_free key \<and> brace_free v"
    by auto
  have r: "py_replace (render ps) (placeholder j) v = render (fill_pieces [(j, v)] ps)"
    using Cons.prems(2) by (rule py_replace_render [OF j])
  have wf: "well_formed (fill_pieces [(j, v)] ps)"
    using v Cons.prems(2) by (intro well_formed_fill_pieces) simp_all
  have "apply_values (render ps) (kv # vals) = apply_values (py_replace (render ps) (placeholder j) v) vals"
    by (simp add: kv str_in_def py_replace_absent placeholder_nonempty)
  also have "\<dots> = render (fill_pieces vals (fill_pieces [(j, v)] ps))"
    unfolding r by (rule Cons.IH [OF rest wf])
  finally show ?case by (simp add: kv fill_pieces_step)
qed

lemma fill_pieces_map_of:
  "map_of vals1 = map_of vals2 \<Longrightarrow> fill_pieces vals1 ps = fill_pieces vals2 ps"
proof -
  assume m: "map_of vals1 = map_of vals2"
  have "fill_piece vals1 pc = fill_piece vals2 pc" for pc
    by (cases pc) (simp_all add: m)
  then have "fill_piece vals1 = fill_piece vals2" by (rule ext)
  then show ?thesis by (simp add: fill_pieces_def)
qed

lemma apply_values_fun: "(\<lambda>t. apply_values t vals) = spec_fill_text vals"
  by (rule ext) (rule apply_values_spec)

lemma fill_pieces_idem: "fill_pieces vals (fill_pieces vals ps) = fill_pieces vals ps"
proof (induction ps)
  case Nil
  then show ?case by (simp add: fill_pieces_Nil)
next
  case (Cons pc ps)
  have "fill_pieces vals (fill_piece vals pc) = fill_piece vals pc"
  proof (cases pc)
    case (Lit c)
    then show ?thesis by (simp add: fill_pieces_Cons fill_pieces_Nil)
  next
    case (Slot key)
    then show ?thesis
      by (cases "map_of vals key") (simp_all add: fill_pieces_Cons fill_pieces_Nil fill_pieces_Lits)
  qed
  with Cons show ?case by (simp add: fill_pieces_Cons fill_pieces_append)
qed

lemma apply_values_funpow_render:
  assumes bf: "\<forall>(key, v)\<in>set vals. brace_free key \<and> brace_free v"
    and wf: "well_formed ps"
  shows "0 < n \<Longrightarrow> ((\<lambda>t. apply_values t vals) ^^ n) (render ps) = render (fill_pieces vals ps)"
proof (induction n)
  case 0
  then show ?case by simp
next
  case (Suc n)
  show ?case
  proof (cases n)
    case 0
    then show ?thesis by (simp add: apply_values_render [OF bf wf])
  next
    case (Suc m)
    then have "((\<lambda>t. apply_values t vals) ^^ n) (render ps) = render (fill_pieces vals ps)"
      using Suc.IH by simp
    moreover have "well_formed (fill_pieces vals ps)"
      using bf wf by (intro well_formed_fill_pieces) auto
    ultimately show ?thesis
      by (simp add: apply_values_render [OF bf] fill_pieces_idem)
  qed
qed

lemma apply_values_funpow_keeps_placeholder:
  assumes "brace_free k" and "\<forall>key\<in>fst ` set vals. brace_free key" and "k \<notin> fst ` set vals"
  shows "str_in (placeholder k) t \<Longrightarrow>
     str_in (placeholder k) (((\<lambda>t. apply_values t vals) ^^ n) t)"
  by (induction n) (simp_all add: apply_values_keeps_placeholder [OF assms])

lemma count_list_distinct: "distinct xs \<Longrightarrow> x \<in> set xs \<Longrightarrow> count_list xs x = 1"
  by (induction xs) auto

lemma visits_distinct:
  "distinct (visit_order doc) \<Longrightarrow> p \<in> set (visit_order doc) \<Longrightarrow> visits doc p = 1"
  by (simp add: visits_def count_list_distinct)

subsection \<open>The claims about the filler\<close>

text \<open>
  C10. With python-docx installed, filling a template with the empty mapping returns
  the template as it was: no paragraph is written, so every reachable paragraph keeps its
  text (and its runs).
\<close>

theorem fill_empty_mapping_identity:
  assumes "Document_installed e"
  shows "fill_template_with_values e (Docx doc) [] = Inr (Docx doc)
     \<and> map paragraph_text (reachable_paragraphs (fill_document doc [])) =
         map paragraph_text (reachable_paragraphs doc)"
proof -
  have "fill_document doc [] = doc"
    by (rule fill_document_same) simp
  with assms show ?thesis
    by (simp add: fill_template_with_values_def)
qed

theorem fill_empty_mapping_identity_witness:
  "fill_template_with_values \<lparr>Document_installed = True, PyPDF2_installed = False\<rparr>
     (Docx \<lparr>content = store_of [\<lparr>runs = [''Dear {{na'', ''me}},'']\<rparr>, \<lparr>runs = [''{{title}}'']\<rparr>,
                                 \<lparr>runs = [''{{id}}'']\<rparr>],
            paragraphs = [0],
            sections = [\<lparr>header = Some \<lparr>hf_paragraphs = [1]\<rparr>, footer = None\<rparr>,
                        \<lparr>header = Some \<lparr>hf_paragraphs = [1]\<rparr>, footer = None\<rparr>],
            tables = [\<lparr>rows = [\<lparr>cells = [\<lparr>cell_paragraphs = [2]\<rparr>, \<lparr>cell_paragraphs = [2]\<rparr>]\<rparr>]\<rparr>]\<rparr>) []
   = Inr (Docx \<lparr>content = store_of [\<lparr>runs = [''Dear {{na'', ''me}},'']\<rparr>, \<lparr>runs = [''{{title}}'']\<rparr>,
                                 \<lparr>runs = [''{{id}}'']\<rparr>],
            paragraphs = [0],
            sections = [\<lparr>header = Some \<lparr>hf_paragraphs = [1]\<rparr>, footer = None\<rparr>,
                        \<lparr>header = Some \<lparr>hf_paragraphs = [1]\<rparr>, footer = None\<rparr>],
            tables = [\<lparr>rows = [\<lparr>cells = [\<lparr>cell_paragraphs = [2]\<rparr>, \<lparr>cell_paragraphs = [2]\<rparr>]\<rparr>]\<rparr>]\<rparr>)"
  using fill_empty_mapping_identity
    [of "\<lparr>Document_installed = True, PyPDF2_installed = False\<rparr>"
        "\<lparr>content = store_of [\<lparr>runs = [''Dear {{na'', ''me}},'']\<rparr>, \<lparr>runs = [''{{title}}'']\<rparr>,
                                 \<lparr>runs = [''{{id}}'']\<rparr>],
            paragraphs = [0],
            sections = [\<lparr>header = Some \<lparr>hf_paragraphs = [1]\<rparr>, footer = None\<rparr>,
                        \<lparr>header = Some \<lparr>hf_paragraphs = [1]\<rparr>, footer = None\<rparr>],
            tables = [\<lparr>rows = [\<lparr>cells = [\<lparr>cell_paragraphs = [2]\<rparr>, \<lparr>cell_paragraphs = [2]\<rparr>]\<rparr>]\<rparr>]\<rparr>"]
  by simp

text \<open>
  C3. When the output of a fill holds no placeholder of any key of the mapping in any
  reachable paragraph, filling that output again with the same mapping returns it
  unchanged.
\<close>

theorem fill_twice_is_fill:
  assumes inst: "Document_installed e"
    and first: "fill_template_with_values e (Docx doc) vals = Inr out"
    and none: "\<forall>p\<in>set (reachable_paragraphs (fill_document doc vals)).
                 \<forall>key\<in>fst ` set vals. \<not> str_in (placeholder key) (paragraph_text p)"
  shows "fill_template_with_values e out vals = Inr out"
proof -
  from inst first have out: "out = Docx (fill_document doc vals)"
    by (simp add: fill_template_with_values_def)
  have "fill_document (fill_document doc vals) vals = fill_document doc vals"
    using none by (intro fill_document_same ballI apply_values_no_placeholder) blast
  with inst show ?thesis
    by (simp add: out fill_template_with_values_def)
qed

theorem fill_twice_is_fill_witness:
  "fill_template_with_values \<lparr>Document_installed = True, PyPDF2_installed = False\<rparr>
     (Docx (fill_document
        \<lparr>content = store_of [\<lparr>runs = [''Hello {{name}}'']\<rparr>],
         paragraphs = [0], sections = [], tables = []\<rparr> [(''name'', ''Ana'')]))
     [(''name'', ''Ana'')]
   = Inr (Docx (fill_document
        \<lparr>content = store_of [\<lparr>runs = [''Hello {{name}}'']\<rparr>],
         paragraphs = [0], sections = [], tables = []\<rparr> [(''name'', ''Ana'')]))
   \<and> map paragraph_text (reachable_paragraphs (fill_document
        \<lparr>content = store_of [\<lparr>runs = [''Hello {{name}}'']\<rparr>],
         paragraphs = [0], sections = [], tables = []\<rparr> [(''name'', ''Ana'')]))
     = [''Hello Ana'']"
proof -
  let ?e = "\<lparr>Document_installed = True, PyPDF2_installed = False\<rparr>"
  let ?d = "\<lparr>content = store_of [\<lparr>runs = [''Hello {{name}}'']\<rparr>],
         paragraphs = [0], sections = [], tables = []\<rparr>"
  have first: "fill_template_with_values ?e (Docx ?d) [(''name'', ''Ana'')] =
      Inr (Docx (fill_document ?d [(''name'', ''Ana'')]))"
    by (simp add: fill_template_with_values_def)
  have none: "\<forall>p\<in>set (reachable_paragraphs (fill_document ?d [(''name'', ''Ana'')])).
                 \<forall>key\<in>fst ` set [(''name'', ''Ana'')]. \<not> str_in (placeholder key) (paragraph_text p)"
    by code_simp
  have t: "map paragraph_text (reachable_paragraphs (fill_document ?d [(''name'', ''Ana'')]))
     = [''Hello Ana'']"
    by code_simp
  show ?thesis
    using fill_twice_is_fill [OF _ first none] t by simp
qed

text \<open>
  C1, with the visits counted. With python-docx installed, the filler returns the
  template with its structure unchanged and the text of every paragraph replaced by the
  result of applying, once for every time the paragraph is handed over, the replacement,
  for every key of the mapping in turn, of all occurrences of the key's placeholder by
  the key's value; the guards of lines 74 and 76 change nothing in the resulting text. A
  paragraph handed over once has the replacement applied once, and in a document that
  hands over no paragraph twice this holds of every reachable paragraph. On a text whose
  braces stand only around placeholder keys, with no brace in the mapping, one
  application gives the text with every placeholder of a key of the mapping replaced by
  the key's value and everything else kept. The paragraph
  \<open>Hello {{name}}, your id is {{id}}.\<close> filled with \<open>name\<close> as \<open>Ana\<close> and \<open>id\<close> as
  \<open>42\<close> extracts back as \<open>Hello Ana, your id is 42.\<close> A paragraph handed over twice
  has the replacement applied twice: in a cell merged over two columns, \<open>{{a}}\<close> filled
  with \<open>a\<close> as \<open>x{{a}}\<close> becomes \<open>xx{{a}}\<close>, where one application gives
  \<open>x{{a}}\<close>; filled with \<open>b\<close> as \<open>X\<close> and then \<open>a\<close> as \<open>{{b}}\<close> it becomes
  \<open>X\<close>, where one application gives \<open>{{b}}\<close>.
\<close>

theorem fill_replaces_once_per_visit:
  assumes "Document_installed e"
  shows "fill_template_with_values e (Docx doc) vals = Inr (Docx (fill_document doc vals))
     \<and> paragraphs (fill_document doc vals) = paragraphs doc
     \<and> sections (fill_document doc vals) = sections doc
     \<and> tables (fill_document doc vals) = tables doc
     \<and> paragraph_text (content (fill_document doc vals) p) =
         (spec_fill_text vals ^^ visits doc p) (paragraph_text (content doc p))
     \<and> (visits doc p = 1 \<longrightarrow>
          paragraph_text (content (fill_document doc vals) p) =
            spec_fill_text vals (paragraph_text (content doc p)))
     \<and> (distinct (visit_order doc) \<longrightarrow>
          map paragraph_text (reachable_paragraphs (fill_document doc vals)) =
            map (spec_fill_text vals) (map paragraph_text (reachable_paragraphs doc)))
     \<and> ((\<forall>(key, v)\<in>set vals. brace_free key \<and> brace_free v) \<and> well_formed ps \<longrightarrow>
          spec_fill_text vals (render ps) = render (fill_pieces vals ps))"
proof -
  have a: "fill_template_with_values e (Docx doc) vals = Inr (Docx (fill_document doc vals))"
    using assms by (simp add: fill_template_with_values_def)
  have b: "paragraphs (fill_document doc vals) = paragraphs doc"
    "sections (fill_document doc vals) = sections doc"
    "tables (fill_document doc vals) = tables doc"
    by (simp_all add: fill_document_content)
  have c: "paragraph_text (content (fill_document doc vals) q) =
         (spec_fill_text vals ^^ visits doc q) (paragraph_text (content doc q))" for q
    by (simp add: content_fill_document replace_in_paragraphs_apply paragraph_text_funpow
        apply_values_fun visits_def)
  have d: "visits doc p = 1 \<longrightarrow>
          paragraph_text (content (fill_document doc vals) p) =
            spec_fill_text vals (paragraph_text (content doc p))"
    by (simp add: c)
  have e: "distinct (visit_order doc) \<longrightarrow>
          map paragraph_text (reachable_paragraphs (fill_document doc vals)) =
            map (spec_fill_text vals) (map paragraph_text (reachable_paragraphs doc))"
  proof
    assume dist: "distinct (visit_order doc)"
    have "paragraph_text (content (fill_document doc vals) q) =
            spec_fill_text vals (paragraph_text (content doc q))"
      if "q \<in> set (visit_order doc)" for q
      using visits_distinct [OF dist that] by (simp add: c)
    then show "map paragraph_text (reachable_paragraphs (fill_document doc vals)) =
            map (spec_fill_text vals) (map paragraph_text (reachable_paragraphs doc))"
      by (simp add: reachable_paragraphs_def visit_order_fill_document)
  qed
  have f: "(\<forall>(key, v)\<in>set vals. brace_free key \<and> brace_free v) \<and> well_formed ps \<longrightarrow>
          spec_fill_text vals (render ps) = render (fill_pieces vals ps)"
    using apply_values_render [of vals ps] by (simp add: apply_values_spec)
  from a b c [of p] d e f show ?thesis by blast
qed

theorem fill_replaces_once_per_visit_witness:
  "fill_template_with_values \<lparr>Document_installed = True, PyPDF2_installed = False\<rparr>
     (Docx \<lparr>content = store_of [\<lparr>runs = [''Hello {{name}}, your id is {{id}}.'']\<rparr>],
             paragraphs = [0], sections = [], tables = []\<rparr>)
     [(''name'', ''Ana''), (''id'', ''42'')]
   = Inr (Docx (fill_document
            \<lparr>content = store_of [\<lparr>runs = [''Hello {{name}}, your id is {{id}}.'']\<rparr>],
             paragraphs = [0], sections = [], tables = []\<rparr>
            [(''name'', ''Ana''), (''id'', ''42'')]))
   \<and> paragraph_text (content (fill_document
            \<lparr>content = store_of [\<lparr>runs = [''Hello {{name}}, your id is {{id}}.'']\<rparr>],
             paragraphs = [0], sections = [], tables = []\<rparr>
            [(''name'', ''Ana''), (''id'', ''42'')]) 0)
     = ''Hello Ana, your id is 42.''
   \<and> extract_text \<lparr>Document_installed = True, PyPDF2_installed = False\<rparr>
     (Docx (fill_document
            \<lparr>content = store_of [\<lparr>runs = [''Hello {{name}}, your id is {{id}}.'']\<rparr>],
             paragraphs = [0], sections = [], tables = []\<rparr>
            [(''name'', ''Ana''), (''id'', ''42'')])) ''docx''
   = Inr ''Hello Ana, your id is 42.''"
proof -
  let ?e = "\<lparr>Document_installed = True, PyPDF2_installed = False\<rparr>"
  let ?d = "\<lparr>content = store_of [\<lparr>runs = [''Hello {{name}}, your id is {{id}}.'']\<rparr>],
             paragraphs = [0], sections = [], tables = []\<rparr>"
  let ?v = "[(''name'', ''Ana''), (''id'', ''42'')]"
  have n: "visits ?d 0 = 1"
    by code_simp
  have s: "spec_fill_text ?v (paragraph_text (content ?d 0)) = ''Hello Ana, your id is 42.''"
    by code_simp
  have x: "extract_text ?e (Docx (fill_document ?d ?v)) ''docx'' = Inr ''Hello Ana, your id is 42.''"
    by code_simp
  show ?thesis
    using fill_replaces_once_per_visit [of ?e ?d ?v 0] n s x
    by simp
qed

theorem fill_merged_cell_counterexample:
  "fill_template_with_values \<lparr>Document_installed = True, PyPDF2_installed = False\<rparr>
     (Docx \<lparr>content = store_of [\<lparr>runs = [''{{a}}'']\<rparr>], paragraphs = [], sections = [],
            tables = [\<lparr>rows = [\<lparr>cells = [\<lparr>cell_paragraphs = [0]\<rparr>, \<lparr>cell_paragraphs = [0]\<rparr>]\<rparr>]\<rparr>]\<rparr>)
     [(''a'', ''x{{a}}'')]
   = Inr (Docx (fill_document
           \<lparr>content = store_of [\<lparr>runs = [''{{a}}'']\<rparr>], paragraphs = [], sections = [],
            tables = [\<lparr>rows = [\<lparr>cells = [\<lparr>cell_paragraphs = [0]\<rparr>, \<lparr>cell_paragraphs = [0]\<rparr>]\<rparr>]\<rparr>]\<rparr>
           [(''a'', ''x{{a}}'')]))
   \<and> map paragraph_text (reachable_paragraphs (fill_document
           \<lparr>content = store_of [\<lparr>runs = [''{{a}}'']\<rparr>], paragraphs = [], sections = [],
            tables = [\<lparr>rows = [\<lparr>cells = [\<lparr>cell_paragraphs = [0]\<rparr>, \<lparr>cell_paragraphs = [0]\<rparr>]\<rparr>]\<rparr>]\<rparr>
           [(''a'', ''x{{a}}'')]))
     = [''xx{{a}}'', ''xx{{a}}'']
   \<and> map (spec_fill_text [(''a'', ''x{{a}}'')]) (map paragraph_text (reachable_paragraphs
           \<lparr>content = store_of [\<lparr>runs = [''{{a}}'']\<rparr>], paragraphs = [], sections = [],
            tables = [\<lparr>rows = [\<lparr>cells = [\<lparr>cell_paragraphs = [0]\<rparr>, \<lparr>cell_paragraphs = [0]\<rparr>]\<rparr>]\<rparr>]\<rparr>))
     = [''x{{a}}'', ''x{{a}}'']
   \<and> map paragraph_text (reachable_paragraphs (fill_document
           \<lparr>content = store_of [\<lparr>runs = [''{{a}}'']\<rparr>], paragraphs = [], sections = [],
            tables = [\<lparr>rows = [\<lparr>cells = [\<lparr>cell_paragraphs = [0]\<rparr>, \<lparr>cell_paragraphs = [0]\<rparr>]\<rparr>]\<rparr>]\<rparr>
           [(''b'', ''X''), (''a'', ''{{b}}'')]))
     = [''X'', ''X'']
   \<and> map (spec_fill_text [(''b'', ''X''), (''a'', ''{{b}}'')]) (map paragraph_text
         (reachable_paragraphs
           \<lparr>content = store_of [\<lparr>runs = [''{{a}}'']\<rparr>], paragraphs = [], sections = [],
            tables = [\<lparr>rows = [\<lparr>cells = [\<lparr>cell_paragraphs = [0]\<rparr>, \<lparr>cell_paragraphs = [0]\<rparr>]\<rparr>]\<rparr>]\<rparr>))
     = [''{{b}}'', ''{{b}}'']"
proof -
  let ?d = "\<lparr>content = store_of [\<lparr>runs = [''{{a}}'']\<rparr>], paragraphs = [], sections = [],
            tables = [\<lparr>rows = [\<lparr>cells = [\<lparr>cell_paragraphs = [0]\<rparr>, \<lparr>cell_paragraphs = [0]\<rparr>]\<rparr>]\<rparr>]\<rparr>"
  have a: "fill_template_with_values \<lparr>Document_installed = True, PyPDF2_installed = False\<rparr>
     (Docx ?d) [(''a'', ''x{{a}}'')] = Inr (Docx (fill_document ?d [(''a'', ''x{{a}}'')]))"
    by (simp add: fill_template_with_values_def)
  have b: "map paragraph_text (reachable_paragraphs (fill_document ?d [(''a'', ''x{{a}}'')]))
     = [''xx{{a}}'', ''xx{{a}}'']"
    by code_simp
  have c: "map (spec_fill_text [(''a'', ''x{{a}}'')]) (map paragraph_text (reachable_paragraphs ?d))
     = [''x{{a}}'', ''x{{a}}'']"
    by code_simp
  have d: "map paragraph_text (reachable_paragraphs (fill_document ?d
             [(''b'', ''X''), (''a'', ''{{b}}'')])) = [''X'', ''X'']"
    by code_simp
  have e: "map (spec_fill_text [(''b'', ''X''), (''a'', ''{{b}}'')])
             (map paragraph_text (reachable_paragraphs ?d)) = [''{{b}}'', ''{{b}}'']"
    by code_simp
  from a b c d e show ?thesis by blast
qed

text \<open>
  C7, for keys without braces. When neither the key \<open>k\<close> nor any key of the mapping
  holds a brace, and \<open>k\<close> is no key of the mapping, a reachable paragraph whose text holds
  the placeholder of \<open>k\<close> still holds it after the fill. The text \<open>{{unknown}}\<close> filled
  with \<open>name\<close> as \<open>Ana\<close> is unchanged. Without the condition on braces the placeholder
  can be consumed: the key \<open>x}}{{k\<close> has the placeholder \<open>{{x}}{{k}}\<close>.
\<close>

theorem fill_keeps_unknown_placeholder:
  assumes inst: "Document_installed e"
    and k: "brace_free k"
    and keys: "\<forall>key\<in>fst ` set vals. brace_free key"
    and unknown: "k \<notin> fst ` set vals"
    and i: "i < length (reachable_paragraphs doc)"
    and occurs: "str_in (placeholder k) (paragraph_text (reachable_paragraphs doc ! i))"
  shows "fill_template_with_values e (Docx doc) vals = Inr (Docx (fill_document doc vals))
     \<and> str_in (placeholder k) (paragraph_text (reachable_paragraphs (fill_document doc vals) ! i))"
proof -
  let ?p = "visit_order doc ! i"
  from i have i': "i < length (visit_order doc)"
    by (simp add: reachable_paragraphs_def)
  have "paragraph_text (reachable_paragraphs (fill_document doc vals) ! i) =
          ((\<lambda>t. apply_values t vals) ^^ visits doc ?p) (paragraph_text (content doc ?p))"
    using i' by (simp add: reachable_paragraphs_fill paragraph_text_funpow)
  moreover have "str_in (placeholder k) (paragraph_text (content doc ?p))"
    using occurs i' by (simp add: reachable_paragraphs_def)
  then have "str_in (placeholder k)
       (((\<lambda>t. apply_values t vals) ^^ visits doc ?p) (paragraph_text (content doc ?p)))"
    by (rule apply_values_funpow_keeps_placeholder [OF k keys unknown])
  ultimately show ?thesis
    using inst by (simp add: fill_template_with_values_def)
qed

theorem fill_keeps_unknown_placeholder_witness:
  "fill_template_with_values \<lparr>Document_installed = True, PyPDF2_installed = False\<rparr>
     (Docx \<lparr>content = store_of [\<lparr>runs = [''{{unknown}}'']\<rparr>],
            paragraphs = [0], sections = [], tables = []\<rparr>)
     [(''name'', ''Ana'')]
   = Inr (Docx (fill_document \<lparr>content = store_of [\<lparr>runs = [''{{unknown}}'']\<rparr>],
            paragraphs = [0], sections = [], tables = []\<rparr> [(''name'', ''Ana'')]))
   \<and> map paragraph_text (reachable_paragraphs (fill_document
          \<lparr>content = store_of [\<lparr>runs = [''{{unknown}}'']\<rparr>],
           paragraphs = [0], sections = [], tables = []\<rparr> [(''name'', ''Ana'')]))
     = [''{{unknown}}'']
   \<and> str_in (placeholder ''unknown'')
       (paragraph_text (reachable_paragraphs (fill_document
          \<lparr>content = store_of [\<lparr>runs = [''{{unknown}}'']\<rparr>],
           paragraphs = [0], sections = [], tables = []\<rparr> [(''name'', ''Ana'')]) ! 0))"
proof -
  let ?e = "\<lparr>Document_installed = True, PyPDF2_installed = False\<rparr>"
  let ?d = "\<lparr>content = store_of [\<lparr>runs = [''{{unknown}}'']\<rparr>],
            paragraphs = [0], sections = [], tables = []\<rparr>"
  have h1: "brace_free ''unknown''" by code_simp
  have h2: "\<forall>key\<in>fst ` set [(''name'', ''Ana'')]. brace_free key" by code_simp
  have h3: "''unknown'' \<notin> fst ` set [(''name'', ''Ana'')]" by simp
  have h4: "0 < length (reachable_paragraphs ?d)" by code_simp
  have h5: "str_in (placeholder ''unknown'') (paragraph_text (reachable_paragraphs ?d ! 0))"
    by code_simp
  have t: "map paragraph_text (reachable_paragraphs (fill_document ?d [(''name'', ''Ana'')]))
     = [''{{unknown}}'']"
    by code_simp
  show ?thesis
    using fill_keeps_unknown_placeholder [of ?e "''unknown''" "[(''name'', ''Ana'')]" 0 ?d, OF _ h1 h2 h3 h4 h5] t
    by simp
qed

theorem fill_overlapping_key_counterexample:
  "''k'' \<notin> fst ` set [(''x}}{{k'', ''V'')]
   \<and> str_in (placeholder ''k'')
       (paragraph_text (content \<lparr>content = store_of [\<lparr>runs = [''{{x}}{{k}}'']\<rparr>],
            paragraphs = [0], sections = [], tables = []\<rparr> 0))
   \<and> fill_template_with_values \<lparr>Document_installed = True, PyPDF2_installed = False\<rparr>
     (Docx \<lparr>content = store_of [\<lparr>runs = [''{{x}}{{k}}'']\<rparr>],
            paragraphs = [0], sections = [], tables = []\<rparr>)
     [(''x}}{{k'', ''V'')]
   = Inr (Docx (fill_document \<lparr>content = store_of [\<lparr>runs = [''{{x}}{{k}}'']\<rparr>],
            paragraphs = [0], sections = [], tables = []\<rparr> [(''x}}{{k'', ''V'')]))
   \<and> map paragraph_text (reachable_paragraphs (fill_document
          \<lparr>content = store_of [\<lparr>runs = [''{{x}}{{k}}'']\<rparr>],
           paragraphs = [0], sections = [], tables = []\<rparr> [(''x}}{{k'', ''V'')]))
     = [''V'']
   \<and> \<not> str_in (placeholder ''k'') ''V''"
proof -
  let ?d = "\<lparr>content = store_of [\<lparr>runs = [''{{x}}{{k}}'']\<rparr>],
            paragraphs = [0], sections = [], tables = []\<rparr>"
  have a: "''k'' \<notin> fst ` set [(''x}}{{k'', ''V'')]" by simp
  have b: "str_in (placeholder ''k'') (paragraph_text (content ?d 0))" by code_simp
  have c: "fill_template_with_values \<lparr>Document_installed = True, PyPDF2_installed = False\<rparr>
     (Docx ?d) [(''x}}{{k'', ''V'')] = Inr (Docx (fill_document ?d [(''x}}{{k'', ''V'')]))"
    by (simp add: fill_template_with_values_def)
  have d: "map paragraph_text (reachable_paragraphs (fill_document ?d [(''x}}{{k'', ''V'')])) = [''V'']"
    by code_simp
  have e: "\<not> str_in (placeholder ''k'') ''V''" by code_simp
  from a b c d e show ?thesis by blast
qed

text \<open>
  C2, for templates and mappings without stray braces. For a template in which braces
  stand only around placeholder keys without braces, and two mappings with the same pairs
  in different orders whose keys and values hold no brace, the two fills give the same
  text in every reachable paragraph. Without the conditions the order shows: with \<open>a\<close>
  as \<open>{{b}}\<close> and \<open>b\<close> as \<open>X\<close>, the text \<open>{{a}}\<close> becomes \<open>X\<close> in one order and
  \<open>{{b}}\<close> in the other.
\<close>

theorem fill_order_irrelevant:
  assumes inst: "Document_installed e"
    and d1: "distinct (map fst vals1)" and d2: "distinct (map fst vals2)"
    and same: "set vals1 = set vals2"
    and bf: "\<forall>(key, v)\<in>set vals1. brace_free key \<and> brace_free v"
    and texts: "map paragraph_text (reachable_paragraphs doc) = map render pss"
    and wf: "list_all well_formed pss"
  shows "fill_template_with_values e (Docx doc) vals1 = Inr (Docx (fill_document doc vals1))
     \<and> fill_template_with_values e (Docx doc) vals2 = Inr (Docx (fill_document doc vals2))
     \<and> map paragraph_text (reachable_paragraphs (fill_document doc vals1)) =
         map paragraph_text (reachable_paragraphs (fill_document doc vals2))"
proof -
  have m: "map_of vals1 = map_of vals2"
    using d1 d2 same by (simp add: map_of_inject_set)
  from bf same have bf2: "\<forall>(key, v)\<in>set vals2. brace_free key \<and> brace_free v"
    by simp
  have len: "length pss = length (visit_order doc)"
    using arg_cong [OF texts, of length] by (simp add: reachable_paragraphs_def)
  have t: "map paragraph_text (reachable_paragraphs (fill_document doc vals)) =
        map (\<lambda>ps. render (fill_pieces vals ps)) pss"
    if b: "\<forall>(key, v)\<in>set vals. brace_free key \<and> brace_free v" for vals
  proof (rule nth_equalityI)
    show "length (map paragraph_text (reachable_paragraphs (fill_document doc vals))) =
            length (map (\<lambda>ps. render (fill_pieces vals ps)) pss)"
      by (simp add: reachable_paragraphs_fill len)
  next
    fix i assume "i < length (map paragraph_text (reachable_paragraphs (fill_document doc vals)))"
    then have i: "i < length (visit_order doc)"
      by (simp add: reachable_paragraphs_fill)
    let ?p = "visit_order doc ! i"
    have "map paragraph_text (reachable_paragraphs doc) ! i = map render pss ! i"
      by (simp add: texts)
    then have r: "paragraph_text (content doc ?p) = render (pss ! i)"
      using i len by (simp add: reachable_paragraphs_def)
    have w: "well_formed (pss ! i)"
      using wf i len by (simp add: list_all_length)
    have pos: "0 < visits doc ?p"
      using i by (intro visits_positive) simp
    have "map paragraph_text (reachable_paragraphs (fill_document doc vals)) ! i =
            ((\<lambda>t. apply_values t vals) ^^ visits doc ?p) (paragraph_text (content doc ?p))"
      using i by (simp add: reachable_paragraphs_fill paragraph_text_funpow)
    also have "\<dots> = render (fill_pieces vals (pss ! i))"
      unfolding r by (rule apply_values_funpow_render [OF b w pos])
    finally show "map paragraph_text (reachable_paragraphs (fill_document doc vals)) ! i =
        map (\<lambda>ps. render (fill_pieces vals ps)) pss ! i"
      using i len by simp
  qed
  have "map paragraph_text (reachable_paragraphs (fill_document doc vals1)) =
         map paragraph_text (reachable_paragraphs (fill_document doc vals2))"
    by (simp add: t [OF bf] t [OF bf2] fill_pieces_map_of [OF m])
  with inst show ?thesis
    by (simp add: fill_template_with_values_def)
qed

theorem fill_order_irrelevant_witness:
  "map paragraph_text (reachable_paragraphs (fill_document
      \<lparr>content = store_of [\<lparr>runs = [''{{a}}-{{b}}'']\<rparr>], paragraphs = [], sections = [],
       tables = [\<lparr>rows = [\<lparr>cells = [\<lparr>cell_paragraphs = [0]\<rparr>, \<lparr>cell_paragraphs = [0]\<rparr>]\<rparr>]\<rparr>]\<rparr>
      [(''a'', ''1''), (''b'', ''2'')]))
   = map paragraph_text (reachable_paragraphs (fill_document
      \<lparr>content = store_of [\<lparr>runs = [''{{a}}-{{b}}'']\<rparr>], paragraphs = [], sections = [],
       tables = [\<lparr>rows = [\<lparr>cells = [\<lparr>cell_paragraphs = [0]\<rparr>, \<lparr>cell_paragraphs = [0]\<rparr>]\<rparr>]\<rparr>]\<rparr>
      [(''b'', ''2''), (''a'', ''1'')]))
   \<and> map paragraph_text (reachable_paragraphs (fill_document
      \<lparr>content = store_of [\<lparr>runs = [''{{a}}-{{b}}'']\<rparr>], paragraphs = [], sections = [],
       tables = [\<lparr>rows = [\<lparr>cells = [\<lparr>cell_paragraphs = [0]\<rparr>, \<lparr>cell_paragraphs = [0]\<rparr>]\<rparr>]\<rparr>]\<rparr>
      [(''b'', ''2''), (''a'', ''1'')]))
     = [''1-2'', ''1-2'']"
proof -
  let ?e = "\<lparr>Document_installed = True, PyPDF2_installed = False\<rparr>"
  let ?d = "\<lparr>content = store_of [\<lparr>runs = [''{{a}}-{{b}}'']\<rparr>], paragraphs = [], sections = [],
       tables = [\<lparr>rows = [\<lparr>cells = [\<lparr>cell_paragraphs = [0]\<rparr>, \<lparr>cell_paragraphs = [0]\<rparr>]\<rparr>]\<rparr>]\<rparr>"
  let ?v1 = "[(''a'', ''1''), (''b'', ''2'')]"
  let ?v2 = "[(''b'', ''2''), (''a'', ''1'')]"
  let ?pss = "[[Slot ''a'', Lit (CHR ''-''), Slot ''b''], [Slot ''a'', Lit (CHR ''-''), Slot ''b'']]"
  have h1: "distinct (map fst ?v1)" "distinct (map fst ?v2)" by simp_all
  have h2: "set ?v1 = set ?v2" by auto
  have h3: "\<forall>(key, v)\<in>set ?v1. brace_free key \<and> brace_free v" by code_simp
  have h4: "map paragraph_text (reachable_paragraphs ?d) = map render ?pss" by code_simp
  have h5: "list_all well_formed ?pss" by code_simp
  have f: "map paragraph_text (reachable_paragraphs (fill_document ?d ?v2)) = [''1-2'', ''1-2'']"
    by code_simp
  show ?thesis
    using fill_order_irrelevant [of ?e ?v1 ?v2 ?d ?pss, OF _ h1 h2 h3 h4 h5] f
    by simp
qed

theorem fill_order_counterexample:
  "set [(''a'', ''{{b}}''), (''b'', ''X'')] = set [(''b'', ''X''), (''a'', ''{{b}}'')]
   \<and> fill_template_with_values \<lparr>Document_installed = True, PyPDF2_installed = False\<rparr>
     (Docx \<lparr>content = store_of [\<lparr>runs = [''{{a}}'']\<rparr>],
            paragraphs = [0], sections = [], tables = []\<rparr>)
     [(''a'', ''{{b}}''), (''b'', ''X'')]
   = Inr (Docx (fill_document \<lparr>content = store_of [\<lparr>runs = [''{{a}}'']\<rparr>],
            paragraphs = [0], sections = [], tables = []\<rparr> [(''a'', ''{{b}}''), (''b'', ''X'')]))
   \<and> map paragraph_text (reachable_paragraphs (fill_document
         \<lparr>content = store_of [\<lparr>runs = [''{{a}}'']\<rparr>],
          paragraphs = [0], sections = [], tables = []\<rparr> [(''a'', ''{{b}}''), (''b'', ''X'')]))
     = [''X'']
   \<and> fill_template_with_values \<lparr>Document_installed = True, PyPDF2_installed = False\<rparr>
     (Docx \<lparr>content = store_of [\<lparr>runs = [''{{a}}'']\<rparr>],
            paragraphs = [0], sections = [], tables = []\<rparr>)
     [(''b'', ''X''), (''a'', ''{{b}}'')]
   = Inr (Docx (fill_document \<lparr>content = store_of [\<lparr>runs = [''{{a}}'']\<rparr>],
            paragraphs = [0], sections = [], tables = []\<rparr> [(''b'', ''X''), (''a'', ''{{b}}'')]))
   \<and> map paragraph_text (reachable_paragraphs (fill_document
         \<lparr>content = store_of [\<lparr>runs = [''{{a}}'']\<rparr>],
          paragraphs = [0], sections = [], tables = []\<rparr> [(''b'', ''X''), (''a'', ''{{b}}'')]))
     = [''{{b}}'']"
proof -
  let ?e = "\<lparr>Document_installed = True, PyPDF2_installed = False\<rparr>"
  let ?d = "\<lparr>content = store_of [\<lparr>runs = [''{{a}}'']\<rparr>],
            paragraphs = [0], sections = [], tables = []\<rparr>"
  have a: "set [(''a'', ''{{b}}''), (''b'', ''X'')] = set [(''b'', ''X''), (''a'', ''{{b}}'')]"
    by auto
  have b: "fill_template_with_values ?e (Docx ?d) vals = Inr (Docx (fill_document ?d vals))"
    for vals
    by (simp add: fill_template_with_values_def)
  have c: "map paragraph_text (reachable_paragraphs (fill_document ?d
         [(''a'', ''{{b}}''), (''b'', ''X'')])) = [''X'']"
    by code_simp
  have d: "map paragraph_text (reachable_paragraphs (fill_document ?d
         [(''b'', ''X''), (''a'', ''{{b}}'')])) = [''{{b}}'']"
    by code_simp
  from a b c d show ?thesis by blast
qed

end
